theory Spec2Isabelle
  imports Complex_Main "HOL-Library.AList" "HOL-Library.Sublist" "HOL-Library.Multiset"
begin

section \<open>Data model\<close>

text \<open>
  The two scripts \<^verbatim>\<open>shadow_models/cifar_models/extract_output.py\<close> and
  \<^verbatim>\<open>shadow_models/synthetic_cifar_models/extract_output.py\<close> share
  \<^verbatim>\<open>evaluate_model\<close>, \<^verbatim>\<open>extract_probabilities\<close> and the driver loop line by line
  (the conflict message is English in one and German in the other); only the first has
  \<^verbatim>\<open>combine_attack_data\<close>. One model serves both.

  A probability vector is a row of the softmax output. Its entries are floating-point
  numbers; every row that reaches the duplicate filter has passed the sum check, so it holds no
  NaN, and on NaN-free floats Python's \<^verbatim>\<open>==\<close> on tuples is equality of the values. The
  entries are therefore modelled by their exact values, as rationals. The floating-point
  arithmetic itself (the network, softmax, the rounded row sum, the tolerance of
  \<^verbatim>\<open>np.allclose\<close>) is not modelled: it enters as the parameters of \<open>inference\<close>.
\<close>

type_synonym prob_vec = "rat list"

text \<open>One output record: probability vector, ground-truth label, membership flag.\<close>

type_synonym output_record = "prob_vec \<times> int \<times> int"

datatype error = AssertionError | ValueError | ZeroDivisionError

text \<open>
  The lines the scripts print, one constructor per message; the three lines with the shapes
  of the filtered arrays are one message. The line with the device, printed when the module is
  loaded, is left out.
\<close>

datatype message =
    ModelNotFound nat
  | Evaluating nat
  | TestAccuracy nat nat
  | Conflict prob_vec int int
  | FinalShapes nat nat nat
  | Saved nat
  | LoadDataFrom nat
  | Collected nat
  | CombinedPath
  | TrainTestShapes nat nat
  | DataNotFound nat
  | Extracting nat

text \<open>The archive \<^verbatim>\<open>shadow_model_{id}_attack_data.npz\<close> and the combined archive.\<close>

record archive =
  arc_probabilities :: "prob_vec list"
  arc_labels :: "int list"
  arc_members :: "int list"

record combined =
  X_train :: "rat list list"
  y_train :: "int list"
  X_test :: "rat list list"
  y_test :: "int list"

text \<open>
  The files the scripts read and write, and the console. A data file is the list of its
  (image, label) samples in file order; \<open>attack_data\<close> holds the per-model archives of
  \<^verbatim>\<open>OUTPUT_DIR\<close> by shadow-model id. A directory has no order of its own: the order of
  the list matters only where \<^verbatim>\<open>combine_attack_data\<close> reads it, and there it stands for the
  order in which \<^verbatim>\<open>os.listdir\<close> returns the archives.
\<close>

record ('img, 'm) world =
  train_data :: "nat \<rightharpoonup> ('img \<times> int) list"
  test_data :: "nat \<rightharpoonup> ('img \<times> int) list"
  model_files :: "nat \<rightharpoonup> 'm"
  attack_data :: "(nat \<times> archive) list"
  combined_attack_data :: "combined option"
  stdout :: "message list"

text \<open>
  What the numeric libraries compute, per sample: the softmax row of the model's output, the
  index of the largest raw output, and the row test of
  \<^verbatim>\<open>np.allclose(probs.sum(axis=1), 1.0)\<close>.
\<close>

record ('img, 'm) inference =
  softmax_out :: "'m \<Rightarrow> 'img \<Rightarrow> prob_vec"
  predicted :: "'m \<Rightarrow> 'img \<Rightarrow> int"
  allclose_one :: "prob_vec \<Rightarrow> bool"

definition print :: "message \<Rightarrow> ('img, 'm) world \<Rightarrow> ('img, 'm) world" where
  "print msg w = w\<lparr>stdout := stdout w @ [msg]\<rparr>"

section \<open>Loading batches\<close>

text \<open>
  \<^verbatim>\<open>DataLoader(dataset, batch_size=256, shuffle=False)\<close>: consecutive batches of
  \<open>batch_size\<close> samples in dataset order, the last one shorter. PyTorch rejects a batch size
  of 0; the scripts only pass 256.
\<close>

function DataLoader :: "'a list \<Rightarrow> nat \<Rightarrow> 'a list list" where
  "DataLoader dataset batch_size =
     (if dataset = [] \<or> batch_size = 0 then []
      else take batch_size dataset # DataLoader (drop batch_size dataset) batch_size)"
  by pat_completeness auto
termination
  by (relation "measure (\<lambda>(dataset, batch_size). length dataset)") auto

declare DataLoader.simps [simp del]

section \<open>Evaluation and extraction\<close>

text \<open>\<^verbatim>\<open>evaluate_model\<close>: the division \<^verbatim>\<open>correct / total\<close> raises on an empty loader.\<close>

fun evaluate_loop ::
  "('img, 'm) inference \<Rightarrow> 'm \<Rightarrow> ('img \<times> int) list list \<Rightarrow> nat \<times> nat \<Rightarrow> nat \<times> nat" where
  "evaluate_loop net model [] (correct, total_seen) = (correct, total_seen)"
| "evaluate_loop net model (batch # test_loader) (correct, total_seen) =
     evaluate_loop net model test_loader
       (correct + length (filter (\<lambda>(x, target). predicted net model x = target) batch),
        total_seen + length batch)"

definition evaluate_model ::
  "('img, 'm) inference \<Rightarrow> 'm \<Rightarrow> ('img \<times> int) list list \<Rightarrow> ('img, 'm) world
     \<Rightarrow> (error \<times> ('img, 'm) world) + ('img, 'm) world" where
  "evaluate_model net model test_loader w =
     (case evaluate_loop net model test_loader (0, 0) of
        (correct, total_seen) \<Rightarrow>
          if total_seen = 0 then Inl (ZeroDivisionError, w)
          else Inr (print (TestAccuracy correct total_seen) w))"

text \<open>
  \<^verbatim>\<open>get_outputs\<close>: the loop asserts the row sums of each batch before it stores the
  batch; \<^verbatim>\<open>np.vstack\<close> of no batches at all raises \<^verbatim>\<open>ValueError\<close>.
\<close>

fun get_outputs_loop ::
  "('img, 'm) inference \<Rightarrow> 'm \<Rightarrow> int \<Rightarrow> ('img \<times> int) list list
     \<Rightarrow> prob_vec list list \<times> int list list \<times> int list
     \<Rightarrow> error + prob_vec list list \<times> int list list \<times> int list" where
  "get_outputs_loop net model member_label [] acc = Inr acc"
| "get_outputs_loop net model member_label (batch # loader) (probabilities, labels, member_labels) =
     (let probs = map (\<lambda>(x, target). softmax_out net model x) batch in
      if \<not> list_all (allclose_one net) probs then Inl AssertionError
      else get_outputs_loop net model member_label loader
             (probabilities @ [probs],
              labels @ [map snd batch],
              member_labels @ replicate (length batch) member_label))"

definition get_outputs ::
  "('img, 'm) inference \<Rightarrow> 'm \<Rightarrow> ('img \<times> int) list list \<Rightarrow> int
     \<Rightarrow> error + prob_vec list \<times> int list \<times> int list" where
  "get_outputs net model loader member_label =
     (case get_outputs_loop net model member_label loader ([], [], []) of
        Inl e \<Rightarrow> Inl e
      | Inr (probabilities, labels, member_labels) \<Rightarrow>
          if probabilities = [] then Inl ValueError
          else Inr (concat probabilities, concat labels, member_labels))"

text \<open>
  Lines 119 to 125 of \<^verbatim>\<open>extract_probabilities\<close>: the train outputs with member label 1,
  the test outputs with member label 0, stacked train first.
\<close>

definition stacked_outputs ::
  "('img, 'm) inference \<Rightarrow> 'm \<Rightarrow> ('img \<times> int) list list \<Rightarrow> ('img \<times> int) list list
     \<Rightarrow> error + prob_vec list \<times> int list \<times> int list" where
  "stacked_outputs net model train_loader test_loader =
     (case get_outputs net model train_loader 1 of
        Inl e \<Rightarrow> Inl e
      | Inr (train_probs, train_labels, train_members) \<Rightarrow>
          (case get_outputs net model test_loader 0 of
             Inl e \<Rightarrow> Inl e
           | Inr (test_probs, test_labels, test_members) \<Rightarrow>
               Inr (train_probs @ test_probs,
                    train_labels @ test_labels,
                    train_members @ test_members)))"

section \<open>Deleting duplicates\<close>

text \<open>
  The loop under \<^verbatim>\<open># Delete duplicates\<close>: the dictionary \<open>unique_data\<close>, the three
  result lists, and the conflict lines it prints.
\<close>

record dedup_state =
  unique_data :: "prob_vec \<rightharpoonup> int"
  filtered_probs :: "prob_vec list"
  filtered_labels :: "int list"
  filtered_members :: "int list"
  console :: "message list"

fun dedup_loop :: "output_record list \<Rightarrow> dedup_state \<Rightarrow> dedup_state" where
  "dedup_loop [] s = s"
| "dedup_loop ((prob, label, member) # rest) s =
     (case unique_data s prob of
        None \<Rightarrow>
          dedup_loop rest
            (s\<lparr>unique_data := (unique_data s)(prob \<mapsto> member),
               filtered_probs := filtered_probs s @ [prob],
               filtered_labels := filtered_labels s @ [label],
               filtered_members := filtered_members s @ [member]\<rparr>)
      | Some first_member \<Rightarrow>
          if first_member \<noteq> member
          then dedup_loop rest (s\<lparr>console := console s @ [Conflict prob first_member member]\<rparr>)
          else dedup_loop rest s)"

definition delete_duplicates :: "prob_vec list \<Rightarrow> int list \<Rightarrow> int list \<Rightarrow> dedup_state" where
  "delete_duplicates probabilities labels members =
     dedup_loop (zip probabilities (zip labels members))
       \<lparr>unique_data = Map.empty, filtered_probs = [], filtered_labels = [],
        filtered_members = [], console = []\<rparr>"

text \<open>The records the filter keeps, as the rows of the three saved arrays.\<close>

definition filtered_records :: "dedup_state \<Rightarrow> output_record list" where
  "filtered_records s = zip (filtered_probs s) (zip (filtered_labels s) (filtered_members s))"

text \<open>
  \<^verbatim>\<open>extract_probabilities\<close>. An exception leaves the function with the files and the
  console as they were when it was raised.
\<close>

definition extract_probabilities ::
  "('img, 'm) inference \<Rightarrow> nat \<Rightarrow> ('img \<times> int) list list \<Rightarrow> ('img \<times> int) list list
     \<Rightarrow> ('img, 'm) world \<Rightarrow> (error \<times> ('img, 'm) world) + ('img, 'm) world" where
  "extract_probabilities net shadow_id train_loader test_loader w =
     (case model_files w shadow_id of
        None \<Rightarrow> Inr (print (ModelNotFound shadow_id) w)
      | Some model \<Rightarrow>
          (case evaluate_model net model test_loader (print (Evaluating shadow_id) w) of
             Inl e \<Rightarrow> Inl e
           | Inr w1 \<Rightarrow>
               (case stacked_outputs net model train_loader test_loader of
                  Inl e \<Rightarrow> Inl (e, w1)
                | Inr (probabilities, labels, members) \<Rightarrow>
                    (let d = delete_duplicates probabilities labels members;
                         w2 = w1\<lparr>stdout := stdout w1 @ console d @
                                  [FinalShapes (length (filtered_probs d))
                                     (length (filtered_labels d)) (length (filtered_members d))]\<rparr>;
                         w3 = w2\<lparr>attack_data :=
                                  AList.update shadow_id
                                    \<lparr>arc_probabilities = filtered_probs d,
                                     arc_labels = filtered_labels d,
                                     arc_members = filtered_members d\<rparr>
                                    (attack_data w2)\<rparr>
                     in Inr (print (Saved shadow_id) w3)))))"

section \<open>Aggregation and split\<close>

text \<open>
  \<^verbatim>\<open>train_test_split\<close> belongs to scikit-learn. It is a parameter here: a function of the
  feature rows, the membership flags, \<^verbatim>\<open>test_size\<close>, \<^verbatim>\<open>random_state\<close>, \<^verbatim>\<open>stratify\<close> and of
  the state \<open>'g\<close> of the global random generator, which is what a call without a seed draws from.
  It returns \<^verbatim>\<open>X_train, X_test, y_train, y_test\<close> or raises.

  \<^verbatim>\<open>combine_attack_data\<close>: \<^verbatim>\<open>np.vstack\<close> of no archive raises \<^verbatim>\<open>ValueError\<close>, and so
  does \<^verbatim>\<open>np.hstack\<close> when the stacked probabilities and labels differ in their number of
  rows. All rows are taken to have as many columns as the network has classes. The literal
  \<^verbatim>\<open>0.3\<close> is passed on as the fraction \<open>3 / 10\<close>.
\<close>

type_synonym 'g splitter =
  "rat list list \<Rightarrow> int list \<Rightarrow> rat \<Rightarrow> nat option \<Rightarrow> int list option \<Rightarrow> 'g
     \<Rightarrow> error + rat list list \<times> rat list list \<times> int list \<times> int list"

definition combine_attack_data ::
  "'g splitter \<Rightarrow> 'g \<Rightarrow> ('img, 'm) world \<Rightarrow> (error \<times> ('img, 'm) world) + ('img, 'm) world" where
  "combine_attack_data train_test_split g w =
     (let shadow_files = attack_data w;
          w1 = w\<lparr>stdout := stdout w @ map (\<lambda>(shadow_id, data). LoadDataFrom shadow_id) shadow_files\<rparr>
      in if shadow_files = [] then Inl (ValueError, w1)
         else
           (let all_probabilities = concat (map (\<lambda>(shadow_id, data). arc_probabilities data) shadow_files);
                all_labels = concat (map (\<lambda>(shadow_id, data). arc_labels data) shadow_files);
                all_members = concat (map (\<lambda>(shadow_id, data). arc_members data) shadow_files);
                w2 = print (Collected (length all_members)) w1
            in if length all_probabilities \<noteq> length all_labels then Inl (ValueError, w2)
               else
                 (case train_test_split
                         (map2 (\<lambda>prob label. prob @ [of_int label]) all_probabilities all_labels)
                         all_members (3 / 10) (Some 42) (Some all_members) g of
                    Inl e \<Rightarrow> Inl (e, w2)
                  | Inr (Xtr, Xte, ytr, yte) \<Rightarrow>
                      Inr (print (TrainTestShapes (length Xtr) (length Xte))
                             (print CombinedPath
                                (w2\<lparr>combined_attack_data :=
                                      Some \<lparr>X_train = Xtr, y_train = ytr,
                                            X_test = Xte, y_test = yte\<rparr>\<rparr>))))))"

text \<open>
  Modelled from the spec: \<^verbatim>\<open>train_test_split\<close> is scikit-learn's and no part of the
  repository, which only calls it. The spec describes what the call yields: "a single stratified
  random split (70% train / 30% test) on the membership flag, ensuring both splits preserve the
  member/non-member ratio", "within expected stratified-sampling tolerance".
  \<open>stratified_split test_size X y r\<close> reads this for a result \<open>r\<close> of a call on the rows
  \<open>X\<close> with the flags \<open>y\<close>: there are as many rows as flags; every row goes, together with
  its flag, to exactly one of the two sides; the test side holds the fraction \<open>test_size\<close> of
  the rows, rounded up to a whole row, and the train side the rest; and on each side the number
  of rows with a given flag differs from that side's proportional share of the flag by less
  than one row.
\<close>

definition stratified_split ::
  "rat \<Rightarrow> rat list list \<Rightarrow> int list
     \<Rightarrow> rat list list \<times> rat list list \<times> int list \<times> int list \<Rightarrow> bool" where
  "stratified_split test_size X y r =
     (case r of (Xtr, Xte, ytr, yte) \<Rightarrow>
        length X = length y \<and> length Xtr = length ytr \<and> length Xte = length yte
      \<and> mset (zip Xtr ytr) + mset (zip Xte yte) = mset (zip X y)
      \<and> int (length Xte) = \<lceil>test_size * of_nat (length X)\<rceil>
      \<and> list_all
           (\<lambda>flag.
              \<bar>int (length y) * int (count_list ytr flag) - int (length ytr) * int (count_list y flag)\<bar>
                < int (length y)
            \<and> \<bar>int (length y) * int (count_list yte flag) - int (length yte) * int (count_list y flag)\<bar>
                < int (length y))
           (remdups y))"

section \<open>The driver\<close>

text \<open>
  The loop of \<^verbatim>\<open>__main__\<close> over the shadow-model ids. An exception raised while one id
  is processed is caught nowhere: it ends the loop.
\<close>

fun main_loop ::
  "('img, 'm) inference \<Rightarrow> nat list \<Rightarrow> ('img, 'm) world
     \<Rightarrow> (error \<times> ('img, 'm) world) + ('img, 'm) world" where
  "main_loop net [] w = Inr w"
| "main_loop net (shadow_id # ids) w =
     (case (train_data w shadow_id, test_data w shadow_id) of
        (Some train_dataset, Some test_dataset) \<Rightarrow>
          (case extract_probabilities net shadow_id
                  (DataLoader train_dataset 256) (DataLoader test_dataset 256)
                  (print (Extracting shadow_id) w) of
             Inl e \<Rightarrow> Inl e
           | Inr w' \<Rightarrow> main_loop net ids w')
      | _ \<Rightarrow> main_loop net ids (print (DataNotFound shadow_id) w))"

text \<open>
  \<^verbatim>\<open>range(1, 31)\<close>, then the aggregation (first script only). The loop writes the
  archives one id after the other; \<^verbatim>\<open>os.listdir\<close> returns them in an order of its own, which
  need not be the order of the ids or of the writes. That order is the parameter \<open>listdir\<close>, a
  rearrangement of the directory's entries, and \<^verbatim>\<open>combine_attack_data\<close> reads the archives
  in it.
\<close>

definition main ::
  "('img, 'm) inference \<Rightarrow> 'g splitter \<Rightarrow> ((nat \<times> archive) list \<Rightarrow> (nat \<times> archive) list)
     \<Rightarrow> 'g \<Rightarrow> ('img, 'm) world \<Rightarrow> (error \<times> ('img, 'm) world) + ('img, 'm) world" where
  "main net train_test_split listdir g w =
     (case main_loop net [1..<31] w of
        Inl e \<Rightarrow> Inl e
      | Inr w' \<Rightarrow>
          combine_attack_data train_test_split g (w'\<lparr>attack_data := listdir (attack_data w')\<rparr>))"

section \<open>The duplicate filter without its accumulators\<close>

text \<open>
  Three functions that read off, from the dictionary at some point of the loop and the
  records still to come, what the loop will append to the result lists (\<open>kept\<close>), what
  the dictionary will be at the end (\<open>seen\<close>) and which conflict lines it will print
  (\<open>reported\<close>). They are proved equal to the loop below and only serve the proofs.
\<close>

fun kept :: "(prob_vec \<rightharpoonup> int) \<Rightarrow> output_record list \<Rightarrow> output_record list" where
  "kept m [] = []"
| "kept m ((p, l, b) # rs) =
     (case m p of None \<Rightarrow> (p, l, b) # kept (m(p \<mapsto> b)) rs | Some a \<Rightarrow> kept m rs)"

fun seen :: "(prob_vec \<rightharpoonup> int) \<Rightarrow> output_record list \<Rightarrow> (prob_vec \<rightharpoonup> int)" where
  "seen m [] = m"
| "seen m ((p, l, b) # rs) =
     (case m p of None \<Rightarrow> seen (m(p \<mapsto> b)) rs | Some a \<Rightarrow> seen m rs)"

fun reported :: "(prob_vec \<rightharpoonup> int) \<Rightarrow> output_record list \<Rightarrow> message list" where
  "reported m [] = []"
| "reported m ((p, l, b) # rs) =
     (case m p of
        None \<Rightarrow> reported (m(p \<mapsto> b)) rs
      | Some a \<Rightarrow> (if a \<noteq> b then [Conflict p a b] else []) @ reported m rs)"

section \<open>Example inputs\<close>

text \<open>
  Concrete inputs on which the theorems below are evaluated: the probability vector
  \<^verbatim>\<open>(0.5, 0.5, 0, ..., 0)\<close> over ten classes, and an inference whose "images" already
  are softmax rows, with the row test taken exactly.
\<close>

definition half_half :: prob_vec where
  "half_half = [1/2, 1/2, 0, 0, 0, 0, 0, 0, 0, 0]"

definition example_net :: "(prob_vec, unit) inference" where
  "example_net = \<lparr>softmax_out = (\<lambda>model x. x), predicted = (\<lambda>model x. 0),
                   allclose_one = (\<lambda>row. sum_list row = 1)\<rparr>"

text \<open>A row that fails the sum test, and files holding it.\<close>

definition skewed :: prob_vec where
  "skewed = [1/2, 1/4, 0, 0, 0, 0, 0, 0, 0, 0]"

definition skewed_world :: "(prob_vec, unit) world" where
  "skewed_world =
     \<lparr>train_data = [1 \<mapsto> [(skewed, 0)]], test_data = [1 \<mapsto> [(half_half, 1)]],
      model_files = [1 \<mapsto> ()], attack_data = [], combined_attack_data = None, stdout = []\<rparr>"

text \<open>Files in which shadow model 5 has its data but no checkpoint, and no other model has data.\<close>

definition missing_model_world :: "(prob_vec, unit) world" where
  "missing_model_world =
     \<lparr>train_data = [5 \<mapsto> [(half_half, 3)]], test_data = [5 \<mapsto> [(half_half, 4)]],
      model_files = Map.empty, attack_data = [], combined_attack_data = None, stdout = []\<rparr>"

text \<open>
  A splitter that honours a seed and stratifies. It rotates the rows by the seed, or by the
  state of the global generator when no seed is given, and sorts them by flag when asked to
  stratify. With \<open>t\<close> the fraction \<open>test_size\<close> of the \<open>n\<close> rows, rounded up, it puts
  into the test set every row at whose position \<open>i\<close> the running share \<open>i * t div n\<close> steps
  up. And an output directory with two archives of five records each.
\<close>

definition systematic_split :: "nat splitter" where
  "systematic_split X y test_size random_state stratify g =
     (let r = (case random_state of None \<Rightarrow> g | Some seed \<Rightarrow> seed);
          rows = (case stratify of
                    None \<Rightarrow> rotate r (zip X y)
                  | Some flags \<Rightarrow> sort_key snd (rotate r (zip X y)));
          n = length rows;
          t = nat \<lceil>test_size * of_nat n\<rceil>;
          marked = map (\<lambda>i. (rows ! i, (i * t) div n < (Suc i * t) div n)) [0..<n];
          train = map fst (filter (\<lambda>m. \<not> snd m) marked);
          test = map fst (filter snd marked)
      in if length X \<noteq> length y \<or> n = 0 \<or> t = n then Inl ValueError
         else Inr (map fst train, map fst test, map snd train, map snd test))"

definition ten_archives_world :: "(prob_vec, unit) world" where
  "ten_archives_world =
     \<lparr>train_data = Map.empty, test_data = Map.empty, model_files = Map.empty,
      attack_data =
        [(1, \<lparr>arc_probabilities = [ [1/10, 9/10], [2/10, 8/10], [3/10, 7/10], [4/10, 6/10], [5/10, 5/10]],
               arc_labels = [1, 1, 1, 0, 0], arc_members = [1, 1, 1, 0, 0]\<rparr>),
         (3, \<lparr>arc_probabilities = [ [6/10, 4/10], [7/10, 3/10], [8/10, 2/10], [9/10, 1/10], [1, 0]],
               arc_labels = [0, 0, 1, 1, 0], arc_members = [1, 1, 0, 0, 0]\<rparr>)],
      combined_attack_data = None, stdout = []\<rparr>"

section \<open>The loop and its functional reading agree\<close>

lemma dedup_loop_char:
  "dedup_loop rs s =
     s\<lparr>unique_data := seen (unique_data s) rs,
       filtered_probs := filtered_probs s @ map fst (kept (unique_data s) rs),
       filtered_labels := filtered_labels s @ map (\<lambda>r. fst (snd r)) (kept (unique_data s) rs),
       filtered_members := filtered_members s @ map (\<lambda>r. snd (snd r)) (kept (unique_data s) rs),
       console := console s @ reported (unique_data s) rs\<rparr>"
proof (induction rs arbitrary: s)
  case Nil
  show ?case by simp
next
  case (Cons r rs)
  obtain p l b where r: "r = (p, l, b)" by (cases r) auto
  show ?case
  proof (cases "unique_data s p")
    case None
    then show ?thesis unfolding r by (simp add: Cons.IH del: fun_upd_apply)
  next
    case (Some a)
    then show ?thesis unfolding r by (simp add: Cons.IH del: fun_upd_apply)
  qed
qed

lemma zip_projections:
  "zip (map fst rs) (zip (map (\<lambda>r. fst (snd r)) rs) (map (\<lambda>r. snd (snd r)) rs)) = rs"
  by (induction rs) auto

lemma delete_duplicates_char:
  "delete_duplicates ps ls ms =
     \<lparr>unique_data = seen Map.empty (zip ps (zip ls ms)),
      filtered_probs = map fst (kept Map.empty (zip ps (zip ls ms))),
      filtered_labels = map (\<lambda>r. fst (snd r)) (kept Map.empty (zip ps (zip ls ms))),
      filtered_members = map (\<lambda>r. snd (snd r)) (kept Map.empty (zip ps (zip ls ms))),
      console = reported Map.empty (zip ps (zip ls ms))\<rparr>"
  by (simp add: delete_duplicates_def dedup_loop_char)

lemma filtered_records_char:
  "filtered_records (delete_duplicates ps ls ms) = kept Map.empty (zip ps (zip ls ms))"
  by (simp add: filtered_records_def delete_duplicates_char zip_projections)

lemma kept_kept: "kept m (kept m rs) = kept m rs"
proof (induction m rs rule: kept.induct)
  case (1 m)
  show ?case by simp
next
  case (2 m p l b rs)
  show ?case by (cases "m p") (simp_all add: "2.IH" del: fun_upd_apply)
qed

lemma seen_kept: "seen m (kept m rs) = seen m rs"
proof (induction m rs rule: kept.induct)
  case (1 m)
  show ?case by simp
next
  case (2 m p l b rs)
  show ?case by (cases "m p") (simp_all add: "2.IH" del: fun_upd_apply)
qed

lemma reported_kept: "reported m (kept m rs) = []"
proof (induction m rs rule: kept.induct)
  case (1 m)
  show ?case by simp
next
  case (2 m p l b rs)
  show ?case by (cases "m p") (simp_all add: "2.IH" del: fun_upd_apply)
qed

section \<open>Properties of the functional reading\<close>

lemma kept_subseq: "subseq (kept m rs) rs"
proof (induction m rs rule: kept.induct)
  case (1 m)
  show ?case by simp
next
  case (2 m p l b rs)
  show ?case
  proof (cases "m p")
    case None
    from "2.IH"(1)[OF None] show ?thesis using None by (simp del: fun_upd_apply)
  next
    case (Some a)
    from "2.IH"(2)[OF Some] show ?thesis using Some
      by (simp add: list_emb_Cons del: fun_upd_apply)
  qed
qed

lemma seen_dom: "dom (seen m rs) = dom m \<union> fst ` set rs"
proof (induction m rs rule: seen.induct)
  case (1 m)
  show ?case by simp
next
  case (2 m p l b rs)
  show ?case
  proof (cases "m p")
    case None
    from "2.IH"(1)[OF None] show ?thesis using None by (auto simp del: fun_upd_apply)
  next
    case (Some a)
    from "2.IH"(2)[OF Some] show ?thesis using Some by (auto simp del: fun_upd_apply)
  qed
qed

lemma seen_mono: "m q = Some a \<Longrightarrow> seen m rs q = Some a"
proof (induction m rs rule: seen.induct)
  case (1 m)
  then show ?case by simp
next
  case (2 m p l b rs)
  show ?case
  proof (cases "m p")
    case None
    with "2.prems" have "p \<noteq> q" by auto
    with "2.prems" have "(m(p \<mapsto> b)) q = Some a" by simp
    from "2.IH"(1)[OF None this] show ?thesis using None by (simp del: fun_upd_apply)
  next
    case (Some c)
    from "2.IH"(2)[OF Some "2.prems"] show ?thesis using Some by (simp del: fun_upd_apply)
  qed
qed

lemma seen_fresh:
  assumes "m q = None" and "q \<notin> fst ` set rs"
  shows "seen m rs q = None"
proof -
  have "q \<notin> dom m \<union> fst ` set rs" using assms by (simp add: domIff)
  then have "q \<notin> dom (seen m rs)" unfolding seen_dom .
  then show ?thesis by (simp add: domIff)
qed

lemma kept_keys: "fst ` set (kept m rs) = fst ` set rs - dom m"
proof (induction m rs rule: kept.induct)
  case (1 m)
  show ?case by simp
next
  case (2 m p l b rs)
  show ?case
  proof (cases "m p")
    case None
    from "2.IH"(1)[OF None] show ?thesis using None by (auto simp del: fun_upd_apply)
  next
    case (Some a)
    from "2.IH"(2)[OF Some] show ?thesis using Some by (auto simp del: fun_upd_apply)
  qed
qed

lemma kept_distinct: "distinct (map fst (kept m rs))"
proof (induction m rs rule: kept.induct)
  case (1 m)
  show ?case by simp
next
  case (2 m p l b rs)
  show ?case
  proof (cases "m p")
    case None
    have "p \<notin> fst ` set (kept (m(p \<mapsto> b)) rs)"
      unfolding kept_keys by simp
    with "2.IH"(1)[OF None] show ?thesis using None by (simp del: fun_upd_apply)
  next
    case (Some a)
    from "2.IH"(2)[OF Some] show ?thesis using Some by (simp del: fun_upd_apply)
  qed
qed

lemma kept_append: "kept m (xs @ ys) = kept m xs @ kept (seen m xs) ys"
proof (induction m xs rule: kept.induct)
  case (1 m)
  show ?case by simp
next
  case (2 m p l b rs)
  show ?case by (cases "m p") (simp_all add: "2.IH" del: fun_upd_apply)
qed

lemma seen_append: "seen m (xs @ ys) = seen (seen m xs) ys"
proof (induction m xs rule: seen.induct)
  case (1 m)
  show ?case by simp
next
  case (2 m p l b rs)
  show ?case by (cases "m p") (simp_all add: "2.IH" del: fun_upd_apply)
qed

lemma reported_append: "reported m (xs @ ys) = reported m xs @ reported (seen m xs) ys"
proof (induction m xs rule: reported.induct)
  case (1 m)
  show ?case by simp
next
  case (2 m p l b rs)
  show ?case by (cases "m p") (simp_all add: "2.IH" del: fun_upd_apply)
qed

lemma reported_complete:
  "m q = Some a \<Longrightarrow> (q, l', b') \<in> set rs \<Longrightarrow> a \<noteq> b' \<Longrightarrow> Conflict q a b' \<in> set (reported m rs)"
proof (induction m rs rule: reported.induct)
  case (1 m)
  then show ?case by simp
next
  case (2 m p l b rs)
  show ?case
  proof (cases "m p")
    case None
    with "2.prems" have ne: "p \<noteq> q" by auto
    with "2.prems" have 1: "(m(p \<mapsto> b)) q = Some a" by simp
    from ne "2.prems" have 2: "(q, l', b') \<in> set rs" by auto
    from "2.IH"(1)[OF None 1 2 "2.prems"(3)] show ?thesis using None by (simp del: fun_upd_apply)
  next
    case (Some c)
    show ?thesis
    proof (cases "(q, l', b') = (p, l, b)")
      case True
      with Some "2.prems" show ?thesis by (auto simp del: fun_upd_apply)
    next
      case False
      with "2.prems" have "(q, l', b') \<in> set rs" by auto
      from "2.IH"(2)[OF Some "2.prems"(1) this "2.prems"(3)] show ?thesis
        using Some by (simp del: fun_upd_apply)
    qed
  qed
qed

lemma reported_sound:
  "Conflict q a b' \<in> set (reported m rs) \<Longrightarrow>
     a \<noteq> b' \<and> seen m rs q = Some a \<and> (\<exists>l'. (q, l', b') \<in> set rs)"
proof (induction m rs rule: reported.induct)
  case (1 m)
  then show ?case by simp
next
  case (2 m p l b rs)
  show ?case
  proof (cases "m p")
    case None
    with "2.prems" have "Conflict q a b' \<in> set (reported (m(p \<mapsto> b)) rs)"
      by (simp del: fun_upd_apply)
    from "2.IH"(1)[OF None this] show ?thesis using None by (auto simp del: fun_upd_apply)
  next
    case (Some c)
    show ?thesis
    proof (cases "Conflict q a b' \<in> set (reported m rs)")
      case True
      from "2.IH"(2)[OF Some True] show ?thesis using Some by (auto simp del: fun_upd_apply)
    next
      case False
      with "2.prems" Some have eq: "q = p" "a = c" "b' = b" "c \<noteq> b"
        by (auto simp del: fun_upd_apply split: if_splits)
      have "seen m rs p = Some c" using Some by (rule seen_mono)
      with eq Some show ?thesis by (auto simp del: fun_upd_apply)
    qed
  qed
qed

lemma kept_seen: "(q, l', b') \<in> set (kept m rs) \<Longrightarrow> seen m rs q = Some b'"
proof (induction m rs rule: kept.induct)
  case (1 m)
  then show ?case by simp
next
  case (2 m p l b rs)
  show ?case
  proof (cases "m p")
    case None
    show ?thesis
    proof (cases "(q, l', b') = (p, l, b)")
      case True
      have "seen (m(p \<mapsto> b)) rs p = Some b" by (rule seen_mono) simp
      with True None show ?thesis by (simp del: fun_upd_apply)
    next
      case False
      with "2.prems" None have "(q, l', b') \<in> set (kept (m(p \<mapsto> b)) rs)"
        by (auto simp del: fun_upd_apply)
      from "2.IH"(1)[OF None this] show ?thesis using None by (simp del: fun_upd_apply)
    qed
  next
    case (Some c)
    with "2.prems" have "(q, l', b') \<in> set (kept m rs)" by (simp del: fun_upd_apply)
    from "2.IH"(2)[OF Some this] show ?thesis using Some by (simp del: fun_upd_apply)
  qed
qed

text \<open>The first record with a vector is kept, and it is the only one kept with that vector.\<close>

lemma kept_first_occurrence:
  assumes "m p = None" and "p \<notin> fst ` set pre"
  shows "filter (\<lambda>r. fst r = p) (kept m (pre @ (p, l, b) # post)) = [(p, l, b)]"
proof -
  let ?m1 = "seen m pre"
  have fresh: "?m1 p = None" using assms by (rule seen_fresh)
  have a: "filter (\<lambda>r. fst r = p) (kept m pre) = []"
  proof -
    have "fst ` set (kept m pre) \<subseteq> fst ` set pre" unfolding kept_keys by blast
    with assms(2) have "\<forall>r \<in> set (kept m pre). fst r \<noteq> p" by auto
    then show ?thesis by (simp add: filter_empty_conv)
  qed
  have b: "filter (\<lambda>r. fst r = p) (kept (?m1(p \<mapsto> b)) post) = []"
  proof -
    have "p \<notin> fst ` set (kept (?m1(p \<mapsto> b)) post)" unfolding kept_keys by simp
    then have "\<forall>r \<in> set (kept (?m1(p \<mapsto> b)) post). fst r \<noteq> p" by auto
    then show ?thesis by (simp add: filter_empty_conv)
  qed
  have "kept m (pre @ (p, l, b) # post) = kept m pre @ (p, l, b) # kept (?m1(p \<mapsto> b)) post"
    using fresh by (simp add: kept_append del: fun_upd_apply)
  then show ?thesis using a b by simp
qed

lemma seen_first_occurrence:
  assumes "m p = None" and "p \<notin> fst ` set pre"
  shows "seen m (pre @ (p, l, b) # post) p = Some b"
proof -
  have fresh: "seen m pre p = None" using assms by (rule seen_fresh)
  have "seen ((seen m pre)(p \<mapsto> b)) post p = Some b" by (rule seen_mono) simp
  then show ?thesis using fresh by (simp add: seen_append del: fun_upd_apply)
qed

lemma reported_later_conflict:
  assumes "m p = None" and "p \<notin> fst ` set pre" and "(p, l', b') \<in> set post" and "b \<noteq> b'"
  shows "Conflict p b b' \<in> set (reported m (pre @ (p, l, b) # post))"
proof -
  have fresh: "seen m pre p = None" using assms(1,2) by (rule seen_fresh)
  have "Conflict p b b' \<in> set (reported ((seen m pre)(p \<mapsto> b)) post)"
    by (rule reported_complete [OF _ assms(3,4)]) simp
  then show ?thesis using fresh by (simp add: reported_append del: fun_upd_apply)
qed

lemma filtered_probs_char:
  "filtered_probs (delete_duplicates ps ls ms) = map fst (kept Map.empty (zip ps (zip ls ms)))"
  by (simp add: delete_duplicates_char)

lemma console_char:
  "console (delete_duplicates ps ls ms) = reported Map.empty (zip ps (zip ls ms))"
  by (simp add: delete_duplicates_char)

lemma unique_data_char:
  "unique_data (delete_duplicates ps ls ms) = seen Map.empty (zip ps (zip ls ms))"
  by (simp add: delete_duplicates_char)

lemma same_label_duplicate_ignored:
  assumes "m p = None" and "p \<notin> fst ` set pre"
  shows "kept m (pre @ (p, l, b) # mid @ (p, l', b) # post) = kept m (pre @ (p, l, b) # mid @ post)"
    and "seen m (pre @ (p, l, b) # mid @ (p, l', b) # post) = seen m (pre @ (p, l, b) # mid @ post)"
    and "reported m (pre @ (p, l, b) # mid @ (p, l', b) # post)
           = reported m (pre @ (p, l, b) # mid @ post)"
proof -
  let ?A = "pre @ (p, l, b) # mid"
  have s: "seen m ?A p = Some b" using assms by (rule seen_first_occurrence)
  have A: "pre @ (p, l, b) # mid @ (p, l', b) # post = ?A @ (p, l', b) # post"
          "pre @ (p, l, b) # mid @ post = ?A @ post" by simp_all
  show "kept m (pre @ (p, l, b) # mid @ (p, l', b) # post) = kept m (pre @ (p, l, b) # mid @ post)"
    unfolding A kept_append [of m ?A] using s by (simp del: fun_upd_apply)
  show "seen m (pre @ (p, l, b) # mid @ (p, l', b) # post) = seen m (pre @ (p, l, b) # mid @ post)"
    unfolding A seen_append [of m ?A] using s by (simp del: fun_upd_apply)
  show "reported m (pre @ (p, l, b) # mid @ (p, l', b) # post)
           = reported m (pre @ (p, l, b) # mid @ post)"
    unfolding A reported_append [of m ?A] using s by (simp del: fun_upd_apply)
qed

lemma kept_first:
  "r \<in> set (kept m rs) \<Longrightarrow>
     \<exists>pre post. rs = pre @ r # post \<and> fst r \<notin> fst ` set pre \<and> m (fst r) = None"
proof (induction m rs rule: kept.induct)
  case (1 m)
  then show ?case by simp
next
  case (2 m p l b rs)
  show ?case
  proof (cases "m p")
    case None
    show ?thesis
    proof (cases "r = (p, l, b)")
      case True
      with None have "(p, l, b) # rs = [] @ r # rs \<and> fst r \<notin> fst ` set [] \<and> m (fst r) = None"
        by simp
      then show ?thesis by blast
    next
      case False
      with "2.prems" None have "r \<in> set (kept (m(p \<mapsto> b)) rs)" by (auto simp del: fun_upd_apply)
      from "2.IH"(1)[OF None this] obtain pre post
        where *: "rs = pre @ r # post" "fst r \<notin> fst ` set pre" "(m(p \<mapsto> b)) (fst r) = None"
        by blast
      from *(3) have ne: "fst r \<noteq> p" and mr: "m (fst r) = None" by (auto split: if_splits)
      from * ne have "(p, l, b) # rs = ((p, l, b) # pre) @ r # post
          \<and> fst r \<notin> fst ` set ((p, l, b) # pre)" by auto
      with mr show ?thesis by blast
    qed
  next
    case (Some a)
    with "2.prems" have "r \<in> set (kept m rs)" by (simp del: fun_upd_apply)
    from "2.IH"(2)[OF Some this] obtain pre post
      where *: "rs = pre @ r # post" "fst r \<notin> fst ` set pre" "m (fst r) = None"
      by blast
    from *(3) Some have ne: "fst r \<noteq> p" by auto
    from * ne have "(p, l, b) # rs = ((p, l, b) # pre) @ r # post
        \<and> fst r \<notin> fst ` set ((p, l, b) # pre)" by auto
    with *(3) show ?thesis by blast
  qed
qed

lemma zip_stacked:
  "zip (map f tr @ map f te)
     (zip (map snd tr @ map snd te) (replicate (length tr) a @ replicate (length te) c))
   = map (\<lambda>s. (f s, snd s, a)) tr @ map (\<lambda>s. (f s, snd s, c)) te"
proof -
  have 1: "zip (map snd tr) (replicate (length tr) a) = map (\<lambda>s. (snd s, a)) tr" for tr :: "('x \<times> 'y) list" and a :: 'z
    by (induction tr) auto
  have 2: "zip (map f tr) (map (\<lambda>s. (snd s, a)) tr) = map (\<lambda>s. (f s, snd s, a)) tr" for tr a
    by (induction tr) auto
  show ?thesis by (simp add: 1 2)
qed

lemma train_vector_kept_as_member:
  assumes "s \<in> set tr"
  shows "\<exists>l. filter (\<lambda>r. fst r = f s)
               (kept Map.empty (map (\<lambda>s. (f s, snd s, a)) tr @ map (\<lambda>s. (f s, snd s, c)) te))
             = [(f s, l, a)]"
proof -
  let ?R = "map (\<lambda>s. (f s, snd s, a)) tr"
  have "\<exists>r \<in> set ?R. fst r = f s" using assms by auto
  then obtain pre r post where sp: "?R = pre @ r # post" "fst r = f s" "\<forall>y \<in> set pre. fst y \<noteq> f s"
    using split_list_first_prop [of ?R "\<lambda>r. fst r = f s"] by blast
  have "r \<in> set ?R" using sp(1) by simp
  then obtain l where r: "r = (f s, l, a)" using sp(2) by auto
  have first: "f s \<notin> fst ` set pre" using sp(3) by auto
  have e: "Map.empty (f s) = (None :: 'c option)" by simp
  have "?R @ map (\<lambda>s. (f s, snd s, c)) te = pre @ (f s, l, a) # (post @ map (\<lambda>s. (f s, snd s, c)) te)"
    using sp(1) r by simp
  then have "filter (\<lambda>r. fst r = f s) (kept Map.empty (?R @ map (\<lambda>s. (f s, snd s, c)) te)) = [(f s, l, a)]"
    using kept_first_occurrence [OF _ first, of Map.empty l a] by simp
  then show ?thesis by blast
qed

section \<open>Batches and outputs\<close>

lemma concat_DataLoader: "0 < n \<Longrightarrow> concat (DataLoader ds n) = ds"
proof (induction ds n rule: DataLoader.induct)
  case (1 dataset batch_size)
  show ?case
  proof (cases "dataset = []")
    case True
    then show ?thesis by (simp add: DataLoader.simps [of "[]"])
  next
    case False
    with 1 show ?thesis by (simp add: DataLoader.simps [of dataset])
  qed
qed

lemma DataLoader_Nil_iff: "0 < n \<Longrightarrow> DataLoader ds n = [] \<longleftrightarrow> ds = []"
  by (simp add: DataLoader.simps [of ds])

lemma evaluate_loop_total:
  "snd (evaluate_loop net model loader (c, t)) = t + length (concat loader)"
  by (induction loader arbitrary: c t) simp_all

lemma evaluate_model_DataLoader:
  "evaluate_model net model (DataLoader te 256) w =
     (if te = [] then Inl (ZeroDivisionError, w)
      else Inr (print (TestAccuracy (fst (evaluate_loop net model (DataLoader te 256) (0, 0)))
                         (length te)) w))"
proof -
  have "snd (evaluate_loop net model (DataLoader te 256) (0, 0)) = length te"
    by (simp add: evaluate_loop_total concat_DataLoader)
  then show ?thesis
    by (auto simp: evaluate_model_def split: prod.splits)
qed

lemma get_outputs_loop_char:
  "get_outputs_loop net model lab loader (P, L, M) =
     (if list_all (list_all (\<lambda>(x, t). allclose_one net (softmax_out net model x))) loader
      then Inr (P @ map (map (\<lambda>(x, t). softmax_out net model x)) loader,
                L @ map (map snd) loader,
                M @ replicate (length (concat loader)) lab)
      else Inl AssertionError)"
proof (induction loader arbitrary: P L M)
  case Nil
  show ?case by simp
next
  case (Cons batch loader)
  show ?case
    by (simp add: Cons.IH list_all_iff replicate_add split_def)
qed

lemma get_outputs_char:
  "get_outputs net model loader lab =
     (if \<not> list_all (\<lambda>(x, t). allclose_one net (softmax_out net model x)) (concat loader)
      then Inl AssertionError
      else if loader = [] then Inl ValueError
      else Inr (map (\<lambda>(x, t). softmax_out net model x) (concat loader),
                map snd (concat loader),
                replicate (length (concat loader)) lab))"
  by (auto simp: get_outputs_def get_outputs_loop_char map_concat list_all_iff)

lemma stacked_outputs_char:
  "stacked_outputs net model train_loader test_loader =
     (if \<not> list_all (\<lambda>(x, t). allclose_one net (softmax_out net model x)) (concat train_loader)
      then Inl AssertionError
      else if train_loader = [] then Inl ValueError
      else if \<not> list_all (\<lambda>(x, t). allclose_one net (softmax_out net model x)) (concat test_loader)
      then Inl AssertionError
      else if test_loader = [] then Inl ValueError
      else Inr (map (\<lambda>(x, t). softmax_out net model x) (concat train_loader)
                  @ map (\<lambda>(x, t). softmax_out net model x) (concat test_loader),
                map snd (concat train_loader) @ map snd (concat test_loader),
                replicate (length (concat train_loader)) 1
                  @ replicate (length (concat test_loader)) 0))"
  by (simp add: stacked_outputs_def get_outputs_char)


section \<open>Extraction\<close>

lemma filtered_lengths:
  "length (filtered_probs (delete_duplicates ps ls ms)) = length (filtered_labels (delete_duplicates ps ls ms))"
  "length (filtered_labels (delete_duplicates ps ls ms)) = length (filtered_members (delete_duplicates ps ls ms))"
  by (simp_all add: delete_duplicates_char)

lemma stacked_outputs_Inr:
  "stacked_outputs net model train_loader test_loader = Inr (ps, ls, ms) \<longleftrightarrow>
     train_loader \<noteq> [] \<and> test_loader \<noteq> []
     \<and> list_all (\<lambda>(x, t). allclose_one net (softmax_out net model x))
          (concat train_loader @ concat test_loader)
     \<and> ps = map (\<lambda>(x, t). softmax_out net model x) (concat train_loader)
            @ map (\<lambda>(x, t). softmax_out net model x) (concat test_loader)
     \<and> ls = map snd (concat train_loader) @ map snd (concat test_loader)
     \<and> ms = replicate (length (concat train_loader)) 1
            @ replicate (length (concat test_loader)) 0"
  unfolding stacked_outputs_char by auto

lemma DataLoader_single:
  "xs \<noteq> [] \<Longrightarrow> length xs \<le> n \<Longrightarrow> DataLoader xs n = [xs]"
  by (cases "n = 0") (simp_all add: DataLoader.simps [of xs] DataLoader.simps [of "[]"])

lemma print_fields [simp]:
  "train_data (print msg w) = train_data w"
  "test_data (print msg w) = test_data w"
  "model_files (print msg w) = model_files w"
  "attack_data (print msg w) = attack_data w"
  "combined_attack_data (print msg w) = combined_attack_data w"
  "stdout (print msg w) = stdout w @ [msg]"
  by (simp_all add: print_def)

lemma extract_probabilities_violation:
  assumes model: "model_files w shadow_id = Some model"
    and sample: "(x, t) \<in> set train_dataset \<union> set test_dataset"
    and bad: "\<not> allclose_one net (softmax_out net model x)"
  shows "\<exists>e w'. extract_probabilities net shadow_id
                  (DataLoader train_dataset 256) (DataLoader test_dataset 256) w = Inl (e, w')
            \<and> attack_data w' = attack_data w
            \<and> (train_dataset \<noteq> [] \<and> test_dataset \<noteq> [] \<longrightarrow> e = AssertionError)"
proof (cases "test_dataset = []")
  case True
  then show ?thesis
    by (simp add: extract_probabilities_def model evaluate_model_DataLoader)
next
  case False
  let ?ok = "\<lambda>(x, t). allclose_one net (softmax_out net model x)"
  from sample bad have nok: "\<not> list_all ?ok (train_dataset @ test_dataset)"
    by (auto simp: list_all_iff)
  have st: "\<exists>e. stacked_outputs net model (DataLoader train_dataset 256) (DataLoader test_dataset 256)
            = Inl e \<and> (train_dataset \<noteq> [] \<longrightarrow> e = AssertionError)"
    using nok by (auto simp: stacked_outputs_char concat_DataLoader DataLoader_Nil_iff)
  then obtain e where e: "stacked_outputs net model (DataLoader train_dataset 256)
       (DataLoader test_dataset 256) = Inl e" "train_dataset \<noteq> [] \<longrightarrow> e = AssertionError"
    by blast
  show ?thesis
    using False e by (simp add: extract_probabilities_def model evaluate_model_DataLoader)
qed

section \<open>The driver loop\<close>

lemma evaluate_model_Inr:
  "evaluate_model net model loader w = Inr w1 \<Longrightarrow> \<exists>msg. w1 = print msg w"
  by (auto simp: evaluate_model_def split: prod.splits if_splits)

lemma extract_probabilities_inputs:
  assumes "extract_probabilities net shadow_id train_loader test_loader w = Inr w'"
  shows "train_data w' = train_data w \<and> test_data w' = test_data w \<and> model_files w' = model_files w"
proof (cases "model_files w shadow_id")
  case None
  with assms show ?thesis by (auto simp: extract_probabilities_def)
next
  case (Some model)
  with assms obtain w1 where
    ev: "evaluate_model net model test_loader (print (Evaluating shadow_id) w) = Inr w1"
    by (auto simp: extract_probabilities_def split: sum.splits)
  from evaluate_model_Inr [OF ev]
  obtain msg where w1: "w1 = print msg (print (Evaluating shadow_id) w)" by blast
  from assms Some ev show ?thesis
    by (auto simp: extract_probabilities_def Let_def w1 split: sum.splits prod.splits)
qed

lemma main_loop_inputs:
  "main_loop net ids w = Inr w' \<Longrightarrow>
     train_data w' = train_data w \<and> test_data w' = test_data w \<and> model_files w' = model_files w"
proof (induction ids arbitrary: w)
  case Nil
  then show ?case by simp
next
  case (Cons i ids)
  show ?case
  proof (cases "train_data w i = None \<or> test_data w i = None")
    case True
    with Cons.prems have "main_loop net ids (print (DataNotFound i) w) = Inr w'"
      by (auto split: option.splits)
    from Cons.IH [OF this] show ?thesis by simp
  next
    case False
    then obtain tr te where d: "train_data w i = Some tr" "test_data w i = Some te" by auto
    with Cons.prems obtain w1 where
      e: "extract_probabilities net i (DataLoader tr 256) (DataLoader te 256)
            (print (Extracting i) w) = Inr w1"
      and r: "main_loop net ids w1 = Inr w'"
      by (auto split: sum.splits)
    from extract_probabilities_inputs [OF e] Cons.IH [OF r] show ?thesis by simp
  qed
qed

lemma main_loop_append:
  "main_loop net (xs @ ys) w =
     (case main_loop net xs w of Inl e \<Rightarrow> Inl e | Inr w' \<Rightarrow> main_loop net ys w')"
proof (induction xs arbitrary: w)
  case Nil
  show ?case by simp
next
  case (Cons i xs)
  show ?case by (simp add: Cons.IH split: option.splits sum.splits)
qed

lemma main_loop_skip:
  assumes "train_data w i = None \<or> test_data w i = None \<or> model_files w i = None"
  shows "main_loop net (i # ids) w =
           main_loop net ids
             (w\<lparr>stdout := stdout w @
                  (if train_data w i = None \<or> test_data w i = None then [DataNotFound i]
                   else [Extracting i, ModelNotFound i])\<rparr>)"
proof (cases "train_data w i = None \<or> test_data w i = None")
  case True
  then show ?thesis by (auto simp: print_def split: option.splits)
next
  case False
  with assms have "model_files w i = None" by blast
  with False show ?thesis
    by (auto simp: extract_probabilities_def print_def split: option.splits)
qed

lemma range_split:
  assumes "1 \<le> i" "i \<le> 30"
  shows "[1..<31] = [1..<i] @ i # [Suc i..<31]"
proof -
  have "[1..<31] = [1..<i] @ [i..<31]"
    using assms upt_add_eq_append [of 1 i "31 - i"] by simp
  also have "[i..<31] = i # [Suc i..<31]" using assms by (simp add: upt_conv_Cons)
  finally show ?thesis .
qed

section \<open>Aggregation\<close>

lemma combine_attack_data_Inr:
  fixes train_test_split :: "'g splitter" and w :: "('img, 'm) world"
  defines "P \<equiv> concat (map (\<lambda>(shadow_id, data). arc_probabilities data) (attack_data w))"
    and "L \<equiv> concat (map (\<lambda>(shadow_id, data). arc_labels data) (attack_data w))"
    and "y \<equiv> concat (map (\<lambda>(shadow_id, data). arc_members data) (attack_data w))"
  shows "combine_attack_data train_test_split g w = Inr w' \<longleftrightarrow>
           attack_data w \<noteq> [] \<and> length P = length L
         \<and> (\<exists>Xtr Xte ytr yte.
               train_test_split (map2 (\<lambda>prob label. prob @ [of_int label]) P L) y
                 (3 / 10) (Some 42) (Some y) g = Inr (Xtr, Xte, ytr, yte)
             \<and> w' = w\<lparr>stdout := stdout w
                          @ map (\<lambda>(shadow_id, data). LoadDataFrom shadow_id) (attack_data w)
                          @ [Collected (length y), CombinedPath,
                             TrainTestShapes (length Xtr) (length Xte)],
                        combined_attack_data :=
                          Some \<lparr>X_train = Xtr, y_train = ytr, X_test = Xte, y_test = yte\<rparr>\<rparr>)"
  unfolding combine_attack_data_def Let_def P_def L_def y_def
  by (auto simp: print_def split: sum.splits prod.splits)

lemma systematic_split_ten:
  "systematic_split
     [ [1/10, 9/10, 1], [1/5, 4/5, 1], [3/10, 7/10, 1], [2/5, 3/5, 0], [1/2, 1/2, 0],
      [3/5, 2/5, 0], [7/10, 3/10, 0], [4/5, 1/5, 1], [9/10, 1/10, 1], [1, 0, 0]]
     [1, 1, 1, 0, 0, 1, 1, 0, 0, 0] (3 / 10) (Some 42) (Some [1, 1, 1, 0, 0, 1, 1, 0, 0, 0]) g
   = Inr ([ [2/5, 3/5, 0], [1/2, 1/2, 0], [4/5, 1/5, 1], [1, 0, 0],
           [3/10, 7/10, 1], [7/10, 3/10, 0], [1/10, 9/10, 1]],
          [ [9/10, 1/10, 1], [3/5, 2/5, 0], [1/5, 4/5, 1]],
          [0, 0, 0, 0, 1, 1, 1], [0, 1, 1])"
proof -
  have "systematic_split
     [ [1/10, 9/10, 1], [1/5, 4/5, 1], [3/10, 7/10, 1], [2/5, 3/5, 0], [1/2, 1/2, 0],
      [3/5, 2/5, 0], [7/10, 3/10, 0], [4/5, 1/5, 1], [9/10, 1/10, 1], [1, 0, 0]]
     [1, 1, 1, 0, 0, 1, 1, 0, 0, 0] (3 / 10) (Some 42) (Some [1, 1, 1, 0, 0, 1, 1, 0, 0, 0]) 0
   = Inr ([ [2/5, 3/5, 0], [1/2, 1/2, 0], [4/5, 1/5, 1], [1, 0, 0],
           [3/10, 7/10, 1], [7/10, 3/10, 0], [1/10, 9/10, 1]],
          [ [9/10, 1/10, 1], [3/5, 2/5, 0], [1/5, 4/5, 1]],
          [0, 0, 0, 0, 1, 1, 1], [0, 1, 1])"
    by code_simp
  then show ?thesis by (simp add: systematic_split_def)
qed

text \<open>Without a seed the same rows are split differently for different generator states.\<close>

lemma systematic_split_unseeded:
  "systematic_split
     [ [1/10, 9/10, 1], [1/5, 4/5, 1], [3/10, 7/10, 1], [2/5, 3/5, 0], [1/2, 1/2, 0],
      [3/5, 2/5, 0], [7/10, 3/10, 0], [4/5, 1/5, 1], [9/10, 1/10, 1], [1, 0, 0]]
     [1, 1, 1, 0, 0, 1, 1, 0, 0, 0] (3 / 10) None (Some [1, 1, 1, 0, 0, 1, 1, 0, 0, 0]) 0
   \<noteq> systematic_split
     [ [1/10, 9/10, 1], [1/5, 4/5, 1], [3/10, 7/10, 1], [2/5, 3/5, 0], [1/2, 1/2, 0],
      [3/5, 2/5, 0], [7/10, 3/10, 0], [4/5, 1/5, 1], [9/10, 1/10, 1], [1, 0, 0]]
     [1, 1, 1, 0, 0, 1, 1, 0, 0, 0] (3 / 10) None (Some [1, 1, 1, 0, 0, 1, 1, 0, 0, 0]) 7"
  by code_simp

lemma ten_archives_rows:
  "map2 (\<lambda>prob label. prob @ [of_int label])
     (concat (map (\<lambda>(shadow_id, data). arc_probabilities data) (attack_data ten_archives_world)))
     (concat (map (\<lambda>(shadow_id, data). arc_labels data) (attack_data ten_archives_world)))
   = [ [1/10, 9/10, 1], [1/5, 4/5, 1], [3/10, 7/10, 1], [2/5, 3/5, 0], [1/2, 1/2, 0],
      [3/5, 2/5, 0], [7/10, 3/10, 0], [4/5, 1/5, 1], [9/10, 1/10, 1], [1, 0, 0]]"
  "concat (map (\<lambda>(shadow_id, data). arc_members data) (attack_data ten_archives_world))
   = [1, 1, 1, 0, 0, 1, 1, 0, 0, 0]"
  by (simp_all add: ten_archives_world_def)

lemma combine_ten_archives:
  "attack_data w = attack_data ten_archives_world \<Longrightarrow>
   combine_attack_data systematic_split g w
     = Inr (w\<lparr>stdout := stdout w @ [LoadDataFrom 1, LoadDataFrom 3, Collected 10, CombinedPath,
                                     TrainTestShapes 7 3],
              combined_attack_data :=
                Some \<lparr>X_train = [ [2/5, 3/5, 0], [1/2, 1/2, 0], [4/5, 1/5, 1], [1, 0, 0],
                                  [3/10, 7/10, 1], [7/10, 3/10, 0], [1/10, 9/10, 1]],
                      y_train = [0, 0, 0, 0, 1, 1, 1],
                      X_test = [ [9/10, 1/10, 1], [3/5, 2/5, 0], [1/5, 4/5, 1]],
                      y_test = [0, 1, 1]\<rparr>\<rparr>)"
  unfolding combine_attack_data_def Let_def
  by (simp only: ten_archives_rows systematic_split_ten)
     (simp add: ten_archives_world_def print_def)

section \<open>Deduplication is idempotent\<close>

text \<open>
  Claim C4. Running the duplicate filter on the three arrays it produced gives back the same
  three arrays and the same dictionary, and prints no conflict: the second pass drops nothing and
  changes nothing. This holds for every input, also for arrays of different lengths (the loop
  reads them through \<^verbatim>\<open>zip\<close>).
\<close>

theorem dedup_idempotent:
  "delete_duplicates
     (filtered_probs (delete_duplicates ps ls ms))
     (filtered_labels (delete_duplicates ps ls ms))
     (filtered_members (delete_duplicates ps ls ms))
   = (delete_duplicates ps ls ms)\<lparr>console := []\<rparr>"
proof -
  let ?k = "kept Map.empty (zip ps (zip ls ms))"
  have "delete_duplicates (map fst ?k) (map (\<lambda>r. fst (snd r)) ?k) (map (\<lambda>r. snd (snd r)) ?k)
        = (delete_duplicates ps ls ms)\<lparr>console := []\<rparr>"
    by (simp add: delete_duplicates_char [of "map fst ?k"] zip_projections kept_kept seen_kept
          reported_kept delete_duplicates_char [of ps])
  then show ?thesis
    by (simp add: delete_duplicates_char [of ps])
qed

section \<open>First-seen membership label wins\<close>

text \<open>
  Claim C1. Let the records read, in order: some records none of which has vector \<open>p\<close>, then a
  record with vector \<open>p\<close> and membership \<open>b\<close>, then any records, then a record with the same
  vector \<open>p\<close> and a different membership \<open>b'\<close>. Then the filter keeps exactly one record with
  vector \<open>p\<close>, the first one, unchanged; the later record is not in the output; the dictionary
  holds the first membership; the conflict of \<open>b\<close> against \<open>b'\<close> is printed; and every record
  of the output is a record of the input (nothing is merged or averaged). The filter is a total
  function: it has no error result.
\<close>

theorem first_seen_label_wins:
  assumes recs: "zip probabilities (zip labels members) = pre @ (p, l, b) # mid @ (p, l', b') # post"
    and first: "p \<notin> fst ` set pre"
    and differ: "b \<noteq> b'"
  shows "filter (\<lambda>r. fst r = p) (filtered_records (delete_duplicates probabilities labels members))
           = [(p, l, b)]
       \<and> (p, l', b') \<notin> set (filtered_records (delete_duplicates probabilities labels members))
       \<and> unique_data (delete_duplicates probabilities labels members) p = Some b
       \<and> Conflict p b b' \<in> set (console (delete_duplicates probabilities labels members))
       \<and> set (filtered_records (delete_duplicates probabilities labels members))
            \<subseteq> set (zip probabilities (zip labels members))"
proof -
  let ?d = "delete_duplicates probabilities labels members"
  have e: "Map.empty p = (None :: int option)" by simp
  have 1: "filter (\<lambda>r. fst r = p) (filtered_records ?d) = [(p, l, b)]"
    unfolding filtered_records_char recs by (rule kept_first_occurrence [OF e first])
  have 2: "(p, l', b') \<notin> set (filtered_records ?d)"
  proof
    assume "(p, l', b') \<in> set (filtered_records ?d)"
    then have "(p, l', b') \<in> set (filter (\<lambda>r. fst r = p) (filtered_records ?d))" by simp
    with 1 differ show False by simp
  qed
  have 3: "unique_data ?d p = Some b"
    unfolding unique_data_char recs by (rule seen_first_occurrence [OF e first])
  have 4: "Conflict p b b' \<in> set (console ?d)"
    unfolding console_char recs
    by (rule reported_later_conflict [OF e first _ differ, of l']) simp
  have 5: "set (filtered_records ?d) \<subseteq> set (zip probabilities (zip labels members))"
    unfolding filtered_records_char
    using list_emb_set [OF kept_subseq [of Map.empty "zip probabilities (zip labels members)"]]
    by blast
  from 1 2 3 4 5 show ?thesis by blast
qed

theorem first_seen_label_wins_witness:
  "filter (\<lambda>r. fst r = half_half)
     (filtered_records (delete_duplicates [half_half, half_half] [3, 3] [1, 0]))
     = [(half_half, 3, 1)]
   \<and> (half_half, 3, 0) \<notin> set (filtered_records (delete_duplicates [half_half, half_half] [3, 3] [1, 0]))
   \<and> Conflict half_half 1 0 \<in> set (console (delete_duplicates [half_half, half_half] [3, 3] [1, 0]))"
  using first_seen_label_wins [of "[half_half, half_half]" "[3, 3]" "[1, 0]" "[]" half_half 3 1 "[]" 3 0 "[]"]
  by simp


section \<open>Each vector once, agreeing duplicates dropped silently\<close>

text \<open>
  Claim C9. The filtered vectors are pairwise distinct and are exactly the vectors of the input,
  so each distinct vector appears once. Every conflict line printed names two different
  memberships. A later record whose vector and membership equal those of the first record with
  that vector has no effect at all: the filter returns the same arrays, dictionary and console
  as on the input without that record.
\<close>

theorem each_vector_once:
  "distinct (filtered_probs (delete_duplicates ps ls ms))
   \<and> set (filtered_probs (delete_duplicates ps ls ms)) = fst ` set (zip ps (zip ls ms))
   \<and> (\<forall>q a c. Conflict q a c \<in> set (console (delete_duplicates ps ls ms)) \<longrightarrow> a \<noteq> c)
   \<and> (zip ps (zip ls ms) = pre @ (p, l, b) # mid @ (p, l', b) # post
        \<and> p \<notin> fst ` set pre
        \<and> zip ps' (zip ls' ms') = pre @ (p, l, b) # mid @ post
      \<longrightarrow> delete_duplicates ps ls ms = delete_duplicates ps' ls' ms')"
proof -
  have 1: "distinct (filtered_probs (delete_duplicates ps ls ms))"
    unfolding filtered_probs_char by (rule kept_distinct)
  have 2: "set (filtered_probs (delete_duplicates ps ls ms)) = fst ` set (zip ps (zip ls ms))"
    unfolding filtered_probs_char using kept_keys [of Map.empty "zip ps (zip ls ms)"] by simp
  have 3: "\<forall>q a c. Conflict q a c \<in> set (console (delete_duplicates ps ls ms)) \<longrightarrow> a \<noteq> c"
    unfolding console_char using reported_sound by blast
  have 4: "delete_duplicates ps ls ms = delete_duplicates ps' ls' ms'"
    if "zip ps (zip ls ms) = pre @ (p, l, b) # mid @ (p, l', b) # post"
      and "p \<notin> fst ` set pre"
      and "zip ps' (zip ls' ms') = pre @ (p, l, b) # mid @ post"
  proof -
    have e: "Map.empty p = (None :: int option)" by simp
    show ?thesis
      unfolding delete_duplicates_char that(1) that(3)
      by (simp only: same_label_duplicate_ignored [OF e that(2)])
  qed
  from 1 2 3 4 show ?thesis by blast
qed
theorem each_vector_once_witness:
  "delete_duplicates [half_half, half_half] [3, 4] [1, 1] = delete_duplicates [half_half] [3] [1]
   \<and> filtered_probs (delete_duplicates [half_half, half_half] [3, 4] [1, 1]) = [half_half]
   \<and> console (delete_duplicates [half_half, half_half] [3, 4] [1, 1]) = []"
  using each_vector_once [of "[half_half, half_half]" "[3, 4]" "[1, 1]" "[]" half_half 3 1 "[]" 4 "[]"
          "[half_half]" "[3]" "[1]"]
  by (simp add: delete_duplicates_def)


section \<open>Membership flags before deduplication\<close>

text \<open>
  Claim C7. The stacked arrays exist exactly when both loaders have a batch and every row
  passes the sum test; they are then the train outputs followed by the test outputs, with
  membership flag 1 on every train record and 0 on every test record.
\<close>

theorem membership_flags:
  "stacked_outputs net model train_loader test_loader = Inr (ps, ls, ms) \<longleftrightarrow>
     train_loader \<noteq> [] \<and> test_loader \<noteq> []
     \<and> list_all (\<lambda>(x, t). allclose_one net (softmax_out net model x))
          (concat train_loader @ concat test_loader)
     \<and> ps = map (\<lambda>(x, t). softmax_out net model x) (concat train_loader)
            @ map (\<lambda>(x, t). softmax_out net model x) (concat test_loader)
     \<and> ls = map snd (concat train_loader) @ map snd (concat test_loader)
     \<and> ms = replicate (length (concat train_loader)) 1
            @ replicate (length (concat test_loader)) 0"
  unfolding stacked_outputs_char by auto
theorem membership_flags_witness:
  "stacked_outputs example_net () [ [(half_half, 3)]] [ [(half_half, 5)]]
     = Inr ([half_half, half_half], [3, 5], [1, 0])"
  using membership_flags [of example_net "()" "[ [(half_half, 3)]]" "[ [(half_half, 5)]]"
          "[half_half, half_half]" "[3, 5]" "[1, 0]"]
  by (simp add: example_net_def half_half_def)

section \<open>Order, alignment and the train-first rule\<close>

text \<open>
  Claim C10. The three filtered arrays have the same length. The kept records are a
  subsequence of the input records, so their order is the input's. Each kept record is the first
  input record with its vector. When the input is the stacked output of a train and a test
  loader, a vector that a train sample and a test sample both produce is kept exactly once, with
  membership flag 1: the train records come first.
\<close>

theorem order_and_alignment:
  "length (filtered_probs (delete_duplicates ps ls ms))
     = length (filtered_labels (delete_duplicates ps ls ms))
   \<and> length (filtered_labels (delete_duplicates ps ls ms))
     = length (filtered_members (delete_duplicates ps ls ms))
   \<and> subseq (filtered_records (delete_duplicates ps ls ms)) (zip ps (zip ls ms))
   \<and> (\<forall>r \<in> set (filtered_records (delete_duplicates ps ls ms)).
         \<exists>pre post. zip ps (zip ls ms) = pre @ r # post \<and> fst r \<notin> fst ` set pre)
   \<and> (stacked_outputs net model train_loader test_loader = Inr (ps, ls, ms) \<longrightarrow>
        (\<forall>x t x' t'.
           (x, t) \<in> set (concat train_loader) \<and> (x', t') \<in> set (concat test_loader)
           \<and> softmax_out net model x = softmax_out net model x' \<longrightarrow>
           (\<exists>l. filter (\<lambda>r. fst r = softmax_out net model x)
                  (filtered_records (delete_duplicates ps ls ms))
                = [(softmax_out net model x, l, 1)])))"
proof -
  let ?d = "delete_duplicates ps ls ms"
  let ?f = "\<lambda>s. softmax_out net model (fst s)"
  have 3: "subseq (filtered_records ?d) (zip ps (zip ls ms))"
    unfolding filtered_records_char by (rule kept_subseq)
  have 4: "\<forall>r \<in> set (filtered_records ?d).
         \<exists>pre post. zip ps (zip ls ms) = pre @ r # post \<and> fst r \<notin> fst ` set pre"
    unfolding filtered_records_char using kept_first by blast
  have 5: "\<exists>l. filter (\<lambda>r. fst r = softmax_out net model x) (filtered_records ?d)
                = [(softmax_out net model x, l, 1)]"
    if st: "stacked_outputs net model train_loader test_loader = Inr (ps, ls, ms)"
      and x: "(x, t) \<in> set (concat train_loader)"
    for x t
  proof -
    have f: "(\<lambda>(x, t). softmax_out net model x) = ?f" by (simp add: split_def)
    from st have ps: "ps = map ?f (concat train_loader) @ map ?f (concat test_loader)"
      and ls: "ls = map snd (concat train_loader) @ map snd (concat test_loader)"
      and ms: "ms = replicate (length (concat train_loader)) 1
                   @ replicate (length (concat test_loader)) 0"
      unfolding stacked_outputs_Inr f by simp_all
    have z: "zip ps (zip ls ms)
           = map (\<lambda>s. (?f s, snd s, 1)) (concat train_loader)
             @ map (\<lambda>s. (?f s, snd s, 0)) (concat test_loader)"
      unfolding ps ls ms by (rule zip_stacked)
    from train_vector_kept_as_member [OF x, of ?f 1 0 "concat test_loader"]
    show ?thesis unfolding filtered_records_char z by simp
  qed
  from filtered_lengths [of ps ls ms] 3 4 5 show ?thesis by blast
qed

theorem order_and_alignment_witness:
  "stacked_outputs example_net () [ [(half_half, 3)]] [ [(half_half, 5)]]
     = Inr ([half_half, half_half], [3, 5], [1, 0])
   \<and> filtered_records (delete_duplicates [half_half, half_half] [3, 5] [1, 0]) = [(half_half, 3, 1)]
   \<and> (\<exists>l. filter (\<lambda>r. fst r = half_half)
             (filtered_records (delete_duplicates [half_half, half_half] [3, 5] [1, 0]))
           = [(half_half, l, 1)])"
proof -
  have s: "stacked_outputs example_net () [ [(half_half, 3)]] [ [(half_half, 5)]]
     = Inr ([half_half, half_half], [3, 5], [1, 0])"
    by (simp add: stacked_outputs_char example_net_def half_half_def)
  have m: "(half_half, 3) \<in> set (concat [ [(half_half, 3 :: int)]])"
          "(half_half, 5) \<in> set (concat [ [(half_half, 5 :: int)]])"
          "softmax_out example_net () half_half = half_half"
    by (simp_all add: example_net_def)
  from order_and_alignment [of "[half_half, half_half]" "[3, 5]" "[1, 0]" example_net "()"
         "[ [(half_half, 3)]]" "[ [(half_half, 5)]]"] s
  have "\<forall>x t x' t'.
           (x, t) \<in> set (concat [ [(half_half, 3 :: int)]]) \<and> (x', t') \<in> set (concat [ [(half_half, 5 :: int)]])
           \<and> softmax_out example_net () x = softmax_out example_net () x' \<longrightarrow>
           (\<exists>l. filter (\<lambda>r. fst r = softmax_out example_net () x)
                  (filtered_records (delete_duplicates [half_half, half_half] [3, 5] [1, 0]))
                = [(softmax_out example_net () x, l, 1)])"
    by blast
  with m have "\<exists>l. filter (\<lambda>r. fst r = half_half)
             (filtered_records (delete_duplicates [half_half, half_half] [3, 5] [1, 0]))
           = [(half_half, l, 1)]"
    by metis
  moreover have "filtered_records (delete_duplicates [half_half, half_half] [3, 5] [1, 0]) = [(half_half, 3, 1)]"
    by (simp add: delete_duplicates_def filtered_records_def)
  ultimately show ?thesis using s by blast
qed

section \<open>A failed sum check is fatal\<close>

text \<open>
  Claim C2. The sum test itself (\<^verbatim>\<open>np.allclose\<close> on the rounded row sum) is the parameter
  \<open>allclose_one\<close>. If the model file exists and some train or test sample has a row that
  fails the test, \<^verbatim>\<open>extract_probabilities\<close> ends with an exception and writes no archive;
  the exception is the \<^verbatim>\<open>AssertionError\<close> whenever both partitions are non-empty (an empty
  partition raises earlier, for another reason). Nothing catches it: the driver loop ends with
  the same exception, and the ids after it are not processed.
\<close>

theorem sum_check_fatal:
  assumes model: "model_files w shadow_id = Some model"
    and sample: "(x, t) \<in> set train_dataset \<union> set test_dataset"
    and bad: "\<not> allclose_one net (softmax_out net model x)"
  shows "(\<exists>e w'. extract_probabilities net shadow_id
                   (DataLoader train_dataset 256) (DataLoader test_dataset 256) w = Inl (e, w')
            \<and> attack_data w' = attack_data w
            \<and> (train_dataset \<noteq> [] \<and> test_dataset \<noteq> [] \<longrightarrow> e = AssertionError))
       \<and> (train_data w shadow_id = Some train_dataset \<and> test_data w shadow_id = Some test_dataset
            \<longrightarrow> (\<exists>e w'. main_loop net (shadow_id # ids) w = Inl (e, w')
                   \<and> attack_data w' = attack_data w
                   \<and> (train_dataset \<noteq> [] \<and> test_dataset \<noteq> [] \<longrightarrow> e = AssertionError)))"
proof -
  have 1: "\<exists>e w'. extract_probabilities net shadow_id
                   (DataLoader train_dataset 256) (DataLoader test_dataset 256) w = Inl (e, w')
            \<and> attack_data w' = attack_data w
            \<and> (train_dataset \<noteq> [] \<and> test_dataset \<noteq> [] \<longrightarrow> e = AssertionError)"
    using assms by (rule extract_probabilities_violation)
  have 2: "\<exists>e w'. main_loop net (shadow_id # ids) w = Inl (e, w')
                   \<and> attack_data w' = attack_data w
                   \<and> (train_dataset \<noteq> [] \<and> test_dataset \<noteq> [] \<longrightarrow> e = AssertionError)"
    if d: "train_data w shadow_id = Some train_dataset" "test_data w shadow_id = Some test_dataset"
  proof -
    have "model_files (print (Extracting shadow_id) w) shadow_id = Some model"
      using model by simp
    from extract_probabilities_violation [OF this sample bad]
    obtain e w' where "extract_probabilities net shadow_id
                   (DataLoader train_dataset 256) (DataLoader test_dataset 256)
                   (print (Extracting shadow_id) w) = Inl (e, w')"
      "attack_data w' = attack_data w"
      "train_dataset \<noteq> [] \<and> test_dataset \<noteq> [] \<longrightarrow> e = AssertionError"
      by auto
    then show ?thesis using d by simp
  qed
  from 1 2 show ?thesis by blast
qed

theorem sum_check_fatal_witness:
  "main_loop example_net [1, 2] skewed_world
     = Inl (AssertionError,
            skewed_world\<lparr>stdout := [Extracting 1, Evaluating 1, TestAccuracy 0 1]\<rparr>)"
proof -
  have s: "(skewed, 0) \<in> set [(skewed, 0 :: int)] \<union> set [(half_half, 1)]"
    and b: "\<not> allclose_one example_net (softmax_out example_net () skewed)"
    and m: "model_files skewed_world 1 = Some ()"
    and d: "train_data skewed_world 1 = Some [(skewed, 0)]"
           "test_data skewed_world 1 = Some [(half_half, 1)]"
    by (simp_all add: example_net_def skewed_def skewed_world_def)
  from sum_check_fatal [OF m s b, of "[2]"] d
  obtain e w' where r: "main_loop example_net [1, 2] skewed_world = Inl (e, w')"
    and e: "e = AssertionError"
    by auto
  have "main_loop example_net [1, 2] skewed_world
     = Inl (AssertionError,
            skewed_world\<lparr>stdout := [Extracting 1, Evaluating 1, TestAccuracy 0 1]\<rparr>)"
    by (simp add: DataLoader_single extract_probabilities_def evaluate_model_def
          stacked_outputs_char print_def example_net_def skewed_world_def skewed_def half_half_def)
  with r e show ?thesis by simp
qed

section \<open>Missing artifacts are skipped\<close>

text \<open>
  Claim C5. Take an id between 1 and 30 whose train file, test file or checkpoint is absent, and
  suppose the loop reaches it, that is, the ids before it raised no exception. Then the run over
  \<^verbatim>\<open>range(1, 31)\<close> is the run over the ids after it, started from the state the earlier ids
  left with only the skip message added to the console: \<^verbatim>\<open>Data for Shadow Model ... not found\<close>
  when a data file is absent, and otherwise the announcement of the extraction followed by
  \<^verbatim>\<open>Model ... not found\<close>. No file is written for the id and nothing else is tried.
\<close>

theorem missing_artifact_skipped:
  assumes range: "1 \<le> shadow_id \<and> shadow_id \<le> 30"
    and earlier: "main_loop net [1..<shadow_id] w = Inr w1"
    and missing: "train_data w shadow_id = None \<or> test_data w shadow_id = None
                  \<or> model_files w shadow_id = None"
  shows "main_loop net [1..<31] w =
           main_loop net [Suc shadow_id..<31]
             (w1\<lparr>stdout := stdout w1 @
                   (if train_data w shadow_id = None \<or> test_data w shadow_id = None
                    then [DataNotFound shadow_id]
                    else [Extracting shadow_id, ModelNotFound shadow_id])\<rparr>)"
proof -
  from main_loop_inputs [OF earlier]
  have same: "train_data w1 = train_data w" "test_data w1 = test_data w"
    "model_files w1 = model_files w" by simp_all
  have "[1..<31] = [1..<shadow_id] @ shadow_id # [Suc shadow_id..<31]"
    using range by (simp only: range_split)
  then have "main_loop net [1..<31] w = main_loop net (shadow_id # [Suc shadow_id..<31]) w1"
    by (simp only: main_loop_append earlier sum.case)
  also have "\<dots> = main_loop net [Suc shadow_id..<31]
             (w1\<lparr>stdout := stdout w1 @
                   (if train_data w1 shadow_id = None \<or> test_data w1 shadow_id = None
                    then [DataNotFound shadow_id]
                    else [Extracting shadow_id, ModelNotFound shadow_id])\<rparr>)"
    by (rule main_loop_skip) (use missing same in simp)
  finally show ?thesis by (simp only: same)
qed

theorem missing_artifact_skipped_witness:
  "main_loop example_net [1..<31] missing_model_world =
     main_loop example_net [6..<31]
       (missing_model_world
          \<lparr>stdout := [DataNotFound 1, DataNotFound 2, DataNotFound 3, DataNotFound 4,
                      Extracting 5, ModelNotFound 5]\<rparr>)"
proof -
  have e: "main_loop example_net [1..<5] missing_model_world
             = Inr (missing_model_world
                      \<lparr>stdout := [DataNotFound 1, DataNotFound 2, DataNotFound 3, DataNotFound 4]\<rparr>)"
  proof -
    have u: "[1..<5] = [1, 2, 3, 4 :: nat]" by code_simp
    show ?thesis unfolding u by (simp add: missing_model_world_def print_def)
  qed
  have m: "train_data missing_model_world 5 = None \<or> test_data missing_model_world 5 = None
             \<or> model_files missing_model_world 5 = None"
    by (simp add: missing_model_world_def)
  from missing_artifact_skipped [of 5 example_net missing_model_world, OF _ e m]
  show ?thesis by (simp add: missing_model_world_def)
qed

section \<open>Aggregation and stratified split\<close>

text \<open>
  Claim C3. Let \<open>X\<close> be the rows built from all archives of the output directory, in the
  order in which they are listed: the stacked probability vectors, each with its ground-truth
  label appended; and let \<open>y\<close> be the stacked membership flags. The aggregation succeeds
  exactly when there is an archive, probabilities and labels have as many rows, and the one call
  of the splitter on \<open>X\<close> and \<open>y\<close> with \<^verbatim>\<open>test_size=0.3\<close>, \<^verbatim>\<open>random_state=42\<close> and
  \<^verbatim>\<open>stratify\<close> set to the membership flags returns; it then saves the four arrays the call
  returned, two of feature rows and two of membership flags. If that call keeps the contract
  \<open>stratified_split\<close>, the saved arrays are a stratified split of \<open>X\<close> and \<open>y\<close>: the test
  arrays hold 30% of the rows, rounded up, the train arrays the other rows, and both sides
  keep the share of members and non-members to within one row.
\<close>

theorem aggregation_and_split:
  fixes train_test_split :: "'g splitter" and w :: "('img, 'm) world"
  defines "P \<equiv> concat (map (\<lambda>(shadow_id, data). arc_probabilities data) (attack_data w))"
    and "L \<equiv> concat (map (\<lambda>(shadow_id, data). arc_labels data) (attack_data w))"
    and "y \<equiv> concat (map (\<lambda>(shadow_id, data). arc_members data) (attack_data w))"
  defines "X \<equiv> map2 (\<lambda>prob label. prob @ [of_int label]) P L"
  shows "(combine_attack_data train_test_split g w = Inr w' \<longleftrightarrow>
            attack_data w \<noteq> [] \<and> length P = length L
          \<and> (\<exists>Xtr Xte ytr yte.
                train_test_split X y (3 / 10) (Some 42) (Some y) g = Inr (Xtr, Xte, ytr, yte)
              \<and> w' = w\<lparr>stdout := stdout w
                           @ map (\<lambda>(shadow_id, data). LoadDataFrom shadow_id) (attack_data w)
                           @ [Collected (length y), CombinedPath,
                              TrainTestShapes (length Xtr) (length Xte)],
                         combined_attack_data :=
                           Some \<lparr>X_train = Xtr, y_train = ytr, X_test = Xte, y_test = yte\<rparr>\<rparr>))
       \<and> ((\<forall>r. train_test_split X y (3 / 10) (Some 42) (Some y) g = Inr r
                 \<longrightarrow> stratified_split (3 / 10) X y r)
            \<and> combine_attack_data train_test_split g w = Inr w' \<longrightarrow>
            (\<exists>c. combined_attack_data w' = Some c
               \<and> stratified_split (3 / 10) X y (X_train c, X_test c, y_train c, y_test c)
               \<and> int (length (X_test c)) = \<lceil>(3 / 10 :: rat) * of_nat (length X)\<rceil>
               \<and> length (X_train c) + length (X_test c) = length X))"
proof -
  note char = combine_attack_data_Inr [of train_test_split g w w', folded P_def L_def y_def, folded X_def]
  have 2: "\<exists>c. combined_attack_data w' = Some c
               \<and> stratified_split (3 / 10) X y (X_train c, X_test c, y_train c, y_test c)
               \<and> int (length (X_test c)) = \<lceil>(3 / 10 :: rat) * of_nat (length X)\<rceil>
               \<and> length (X_train c) + length (X_test c) = length X"
    if contract: "\<forall>r. train_test_split X y (3 / 10) (Some 42) (Some y) g = Inr r
                 \<longrightarrow> stratified_split (3 / 10) X y r"
      and run: "combine_attack_data train_test_split g w = Inr w'"
  proof -
    from run char obtain Xtr Xte ytr yte where
      call: "train_test_split X y (3 / 10) (Some 42) (Some y) g = Inr (Xtr, Xte, ytr, yte)"
      and w': "w' = w\<lparr>stdout := stdout w
                           @ map (\<lambda>(shadow_id, data). LoadDataFrom shadow_id) (attack_data w)
                           @ [Collected (length y), CombinedPath,
                              TrainTestShapes (length Xtr) (length Xte)],
                         combined_attack_data :=
                           Some \<lparr>X_train = Xtr, y_train = ytr, X_test = Xte, y_test = yte\<rparr>\<rparr>"
      by blast
    from contract call have s: "stratified_split (3 / 10) X y (Xtr, Xte, ytr, yte)" by blast
    then have sz: "int (length Xte) = \<lceil>(3 / 10 :: rat) * of_nat (length X)\<rceil>"
      and m: "mset (zip Xtr ytr) + mset (zip Xte yte) = mset (zip X y)"
      and l: "length X = length y" "length Xtr = length ytr" "length Xte = length yte"
      unfolding stratified_split_def by blast+
    from m have "size (mset (zip Xtr ytr) + mset (zip Xte yte)) = size (mset (zip X y))" by simp
    with l have "length Xtr + length Xte = length X" by simp
    with s sz show ?thesis by (simp add: w')
  qed
  from char 2 show ?thesis by blast
qed

theorem aggregation_and_split_witness:
  "combine_attack_data systematic_split 0 ten_archives_world
     = Inr (ten_archives_world
              \<lparr>stdout := [LoadDataFrom 1, LoadDataFrom 3, Collected 10, CombinedPath,
                          TrainTestShapes 7 3],
               combined_attack_data :=
                 Some \<lparr>X_train = [ [2/5, 3/5, 0], [1/2, 1/2, 0], [4/5, 1/5, 1], [1, 0, 0],
                                   [3/10, 7/10, 1], [7/10, 3/10, 0], [1/10, 9/10, 1]],
                       y_train = [0, 0, 0, 0, 1, 1, 1],
                       X_test = [ [9/10, 1/10, 1], [3/5, 2/5, 0], [1/5, 4/5, 1]],
                       y_test = [0, 1, 1]\<rparr>\<rparr>)
   \<and> (\<exists>c. combined_attack_data
             (ten_archives_world
                \<lparr>stdout := [LoadDataFrom 1, LoadDataFrom 3, Collected 10, CombinedPath,
                            TrainTestShapes 7 3],
                 combined_attack_data :=
                   Some \<lparr>X_train = [ [2/5, 3/5, 0], [1/2, 1/2, 0], [4/5, 1/5, 1], [1, 0, 0],
                                     [3/10, 7/10, 1], [7/10, 3/10, 0], [1/10, 9/10, 1]],
                         y_train = [0, 0, 0, 0, 1, 1, 1],
                         X_test = [ [9/10, 1/10, 1], [3/5, 2/5, 0], [1/5, 4/5, 1]],
                         y_test = [0, 1, 1]\<rparr>\<rparr>) = Some c
          \<and> stratified_split (3 / 10)
               [ [1/10, 9/10, 1], [1/5, 4/5, 1], [3/10, 7/10, 1], [2/5, 3/5, 0], [1/2, 1/2, 0],
                [3/5, 2/5, 0], [7/10, 3/10, 0], [4/5, 1/5, 1], [9/10, 1/10, 1], [1, 0, 0]]
               [1, 1, 1, 0, 0, 1, 1, 0, 0, 0]
               (X_train c, X_test c, y_train c, y_test c)
          \<and> length (X_test c) = 3 \<and> length (X_train c) = 7)"
proof -
  let ?X = "[ [1/10, 9/10, 1], [1/5, 4/5, 1], [3/10, 7/10, 1], [2/5, 3/5, 0], [1/2, 1/2, 0],
        [3/5, 2/5, 0], [7/10, 3/10, 0], [4/5, 1/5, 1], [9/10, 1/10, 1], [1, 0, 0 :: rat]]"
  let ?y = "[1, 1, 1, 0, 0, 1, 1, 0, 0, 0 :: int]"
  let ?w' = "ten_archives_world
              \<lparr>stdout := [LoadDataFrom 1, LoadDataFrom 3, Collected 10, CombinedPath,
                          TrainTestShapes 7 3],
               combined_attack_data :=
                 Some \<lparr>X_train = [ [2/5, 3/5, 0], [1/2, 1/2, 0], [4/5, 1/5, 1], [1, 0, 0],
                                   [3/10, 7/10, 1], [7/10, 3/10, 0], [1/10, 9/10, 1]],
                       y_train = [0, 0, 0, 0, 1, 1, 1],
                       X_test = [ [9/10, 1/10, 1], [3/5, 2/5, 0], [1/5, 4/5, 1]],
                       y_test = [0, 1, 1]\<rparr>\<rparr>"
  have contract: "\<forall>r. systematic_split ?X ?y (3 / 10) (Some 42) (Some ?y) 0 = Inr r
                    \<longrightarrow> stratified_split (3 / 10) ?X ?y r"
    unfolding systematic_split_ten by (simp add: stratified_split_def)
  have run: "combine_attack_data systematic_split 0 ten_archives_world = Inr ?w'"
    using combine_ten_archives [of ten_archives_world 0] by (simp add: ten_archives_world_def)
  from aggregation_and_split [of systematic_split 0 ten_archives_world ?w', unfolded ten_archives_rows]
    contract run
  have "\<exists>c. combined_attack_data ?w' = Some c
          \<and> stratified_split (3 / 10) ?X ?y (X_train c, X_test c, y_train c, y_test c)
          \<and> int (length (X_test c)) = \<lceil>(3 / 10 :: rat) * of_nat (length ?X)\<rceil>
          \<and> length (X_train c) + length (X_test c) = length ?X"
    by blast
  then have "\<exists>c. combined_attack_data ?w' = Some c
          \<and> stratified_split (3 / 10) ?X ?y (X_train c, X_test c, y_train c, y_test c)
          \<and> length (X_test c) = 3 \<and> length (X_train c) = 7"
    by auto
  with run show ?thesis by blast
qed

section \<open>The split does not depend on the global generator\<close>

text \<open>
  Claim C6. \<^verbatim>\<open>combine_attack_data\<close> passes \<^verbatim>\<open>random_state=42\<close>. For every splitter
  whose seeded calls do not read the state of the global random generator, two runs on the same
  per-model archives end alike, with the same exception or with the same four arrays, whatever
  the generator's state, the console and the other files are.
\<close>

theorem split_deterministic:
  assumes seeded:
    "\<forall>X y test_size seed stratify g g'.
       train_test_split X y test_size (Some seed) stratify g
         = train_test_split X y test_size (Some seed) stratify g'"
    and same: "attack_data w = attack_data w'"
  shows "map_sum fst combined_attack_data (combine_attack_data train_test_split g w)
       = map_sum fst combined_attack_data (combine_attack_data train_test_split g' w')"
proof -
  let ?files = "attack_data w"
  let ?X = "map2 (\<lambda>prob label. prob @ [of_int label])
              (concat (map (\<lambda>(shadow_id, data). arc_probabilities data) ?files))
              (concat (map (\<lambda>(shadow_id, data). arc_labels data) ?files))"
  let ?y = "concat (map (\<lambda>(shadow_id, data). arc_members data) ?files)"
  from seeded have call:
    "train_test_split ?X ?y (3 / 10) (Some 42) (Some ?y) g
       = train_test_split ?X ?y (3 / 10) (Some 42) (Some ?y) g'"
    by blast
  show ?thesis
    unfolding combine_attack_data_def Let_def same [symmetric] call
    by (simp add: print_def split: sum.splits prod.splits)
qed

theorem split_deterministic_witness:
  "map_sum fst combined_attack_data (combine_attack_data systematic_split 0 ten_archives_world)
     = map_sum fst combined_attack_data
         (combine_attack_data systematic_split 7 (ten_archives_world\<lparr>stdout := [Saved 1, Saved 3]\<rparr>))
   \<and> map_sum fst combined_attack_data (combine_attack_data systematic_split 0 ten_archives_world)
     = Inr (Some \<lparr>X_train = [ [2/5, 3/5, 0], [1/2, 1/2, 0], [4/5, 1/5, 1], [1, 0, 0],
                             [3/10, 7/10, 1], [7/10, 3/10, 0], [1/10, 9/10, 1]],
                  y_train = [0, 0, 0, 0, 1, 1, 1],
                  X_test = [ [9/10, 1/10, 1], [3/5, 2/5, 0], [1/5, 4/5, 1]],
                  y_test = [0, 1, 1]\<rparr>)"
proof -
  have s: "\<forall>X y test_size seed stratify g g'.
       systematic_split X y test_size (Some seed) stratify g
         = systematic_split X y test_size (Some seed) stratify g'"
    by (simp add: systematic_split_def)
  have a: "attack_data ten_archives_world
             = attack_data (ten_archives_world\<lparr>stdout := [Saved 1, Saved 3]\<rparr>)"
    by simp
  have v: "map_sum fst combined_attack_data (combine_attack_data systematic_split 0 ten_archives_world)
     = Inr (Some \<lparr>X_train = [ [2/5, 3/5, 0], [1/2, 1/2, 0], [4/5, 1/5, 1], [1, 0, 0],
                             [3/10, 7/10, 1], [7/10, 3/10, 0], [1/10, 9/10, 1]],
                  y_train = [0, 0, 0, 0, 1, 1, 1],
                  X_test = [ [9/10, 1/10, 1], [3/5, 2/5, 0], [1/5, 4/5, 1]],
                  y_test = [0, 1, 1]\<rparr>)"
    by (simp add: combine_ten_archives)
  from split_deterministic [OF s a, of 0 7] v show ?thesis by simp
qed

end
